theory Spec2Isabelle
  imports Complex_Main "HOL-Library.Word"
begin

unbundle bit_operations_syntax

section \<open>Python values and exceptions\<close>

text \<open>
  The arguments of the public operations are dynamically typed, so they are values of a
  small universe of Python objects.  A \<open>str\<close> is its sequence of Unicode code points
  (each below \<open>0x110000\<close>; lone surrogates \<open>0xD800..0xDFFF\<close> are legal in a \<open>str\<close>).
  A \<open>float\<close> carries a real number: the model computes with exact reals, so rounding,
  overflow, infinities and NaN of IEEE doubles are outside of it.  \<open>bool\<close> is a subclass
  of \<open>int\<close> (\<open>isinstance(True, int)\<close> holds, \<open>True\<close> counts as 1).
\<close>

type_synonym pystr = "nat list"

datatype pyval = PyNone | PyBool bool | PyInt int | PyFloat real | PyStr pystr

datatype exn =
    TypeError string
  | ValueError string
  | UnicodeEncodeError
  | ZeroDivisionError
  | IndexError

text \<open>\<open>isinstance(v, int)\<close>, \<open>isinstance(v, numbers.Number)\<close>, \<open>isinstance(v, str)\<close>.\<close>

fun isinstance_int :: "pyval \<Rightarrow> bool" where
  "isinstance_int (PyInt i) = True"
| "isinstance_int (PyBool b) = True"
| "isinstance_int v = False"

fun isinstance_Number :: "pyval \<Rightarrow> bool" where
  "isinstance_Number (PyInt i) = True"
| "isinstance_Number (PyBool b) = True"
| "isinstance_Number (PyFloat r) = True"
| "isinstance_Number v = False"

fun isinstance_str :: "pyval \<Rightarrow> bool" where
  "isinstance_str (PyStr s) = True"
| "isinstance_str v = False"

text \<open>The integer a \<open>bool\<close> or \<open>int\<close> stands for in arithmetic and comparisons.\<close>

fun int_val :: "pyval \<Rightarrow> int" where
  "int_val (PyInt i) = i"
| "int_val (PyBool b) = (if b then 1 else 0)"
| "int_val v = 0"

text \<open>The real a number stands for when it meets a float (\<open>p <= 0\<close>, \<open>math.log(p)\<close>).\<close>

fun num_val :: "pyval \<Rightarrow> real" where
  "num_val (PyFloat r) = r"
| "num_val v = real_of_int (int_val v)"

fun str_val :: "pyval \<Rightarrow> pystr" where
  "str_val (PyStr s) = s"
| "str_val v = []"

section \<open>\<open>str.encode()\<close>: UTF-8, strict\<close>

type_synonym byte = "8 word"

fun utf8_char :: "nat \<Rightarrow> exn + byte list" where
  "utf8_char c =
    (if c < 0x80 then Inr [of_nat c]
     else if c < 0x800 then Inr [of_nat (0xC0 + c div 64), of_nat (0x80 + c mod 64)]
     else if c < 0x10000 then
       (if 0xD800 \<le> c \<and> c \<le> 0xDFFF then Inl UnicodeEncodeError
        else Inr [of_nat (0xE0 + c div 4096), of_nat (0x80 + c div 64 mod 64),
                  of_nat (0x80 + c mod 64)])
     else Inr [of_nat (0xF0 + c div 262144), of_nat (0x80 + c div 4096 mod 64),
               of_nat (0x80 + c div 64 mod 64), of_nat (0x80 + c mod 64)])"

fun encode :: "pystr \<Rightarrow> exn + byte list" where
  "encode [] = Inr []"
| "encode (c # cs) =
    (case utf8_char c of
       Inl e \<Rightarrow> Inl e
     | Inr bs \<Rightarrow> (case encode cs of Inl e \<Rightarrow> Inl e | Inr rest \<Rightarrow> Inr (bs @ rest)))"

section \<open>\<open>hashlib.md5\<close> (RFC 1321)\<close>

type_synonym u32 = "32 word"

definition md5_s :: "nat list" where
  "md5_s =
    [7, 12, 17, 22, 7, 12, 17, 22, 7, 12, 17, 22, 7, 12, 17, 22,
     5, 9, 14, 20, 5, 9, 14, 20, 5, 9, 14, 20, 5, 9, 14, 20,
     4, 11, 16, 23, 4, 11, 16, 23, 4, 11, 16, 23, 4, 11, 16, 23,
     6, 10, 15, 21, 6, 10, 15, 21, 6, 10, 15, 21, 6, 10, 15, 21]"

definition md5_K :: "u32 list" where
  "md5_K =
    [0xd76aa478, 0xe8c7b756, 0x242070db, 0xc1bdceee,
     0xf57c0faf, 0x4787c62a, 0xa8304613, 0xfd469501,
     0x698098d8, 0x8b44f7af, 0xffff5bb1, 0x895cd7be,
     0x6b901122, 0xfd987193, 0xa679438e, 0x49b40821,
     0xf61e2562, 0xc040b340, 0x265e5a51, 0xe9b6c7aa,
     0xd62f105d, 0x02441453, 0xd8a1e681, 0xe7d3fbc8,
     0x21e1cde6, 0xc33707d6, 0xf4d50d87, 0x455a14ed,
     0xa9e3e905, 0xfcefa3f8, 0x676f02d9, 0x8d2a4c8a,
     0xfffa3942, 0x8771f681, 0x6d9d6122, 0xfde5380c,
     0xa4beea44, 0x4bdecfa9, 0xf6bb4b60, 0xbebfbc70,
     0x289b7ec6, 0xeaa127fa, 0xd4ef3085, 0x04881d05,
     0xd9d4d039, 0xe6db99e5, 0x1fa27cf8, 0xc4ac5665,
     0xf4292244, 0x432aff97, 0xab9423a7, 0xfc93a039,
     0x655b59c3, 0x8f0ccc92, 0xffeff47d, 0x85845dd1,
     0x6fa87e4f, 0xfe2ce6e0, 0xa3014314, 0x4e0811a1,
     0xf7537e82, 0xbd3af235, 0x2ad7d2bb, 0xeb86d391]"

definition leftrotate :: "u32 \<Rightarrow> nat \<Rightarrow> u32" where
  "leftrotate x c = push_bit c x OR drop_bit (32 - c) x"

text \<open>Little-endian bytes of a word and back.\<close>

definition le_bytes32 :: "u32 \<Rightarrow> byte list" where
  "le_bytes32 w = map (\<lambda>k. ucast (drop_bit (8 * k) w)) [0, 1, 2, 3]"

definition le_bytes64 :: "64 word \<Rightarrow> byte list" where
  "le_bytes64 w = map (\<lambda>k. ucast (drop_bit (8 * k) w)) [0, 1, 2, 3, 4, 5, 6, 7]"

fun le_word32 :: "byte list \<Rightarrow> u32" where
  "le_word32 [] = 0"
| "le_word32 (b # bs) = ucast b OR push_bit 8 (le_word32 bs)"

text \<open>Padding: a 1 bit, zeros up to 56 modulo 64 bytes, the bit length in 64 bits.\<close>

definition md5_pad :: "byte list \<Rightarrow> byte list" where
  "md5_pad msg =
    msg @ [0x80] @ replicate ((119 - length msg mod 64) mod 64) 0
        @ le_bytes64 (of_nat (8 * length msg))"

fun chunks :: "nat \<Rightarrow> nat \<Rightarrow> 'a list \<Rightarrow> 'a list list" where
  "chunks 0 n xs = []"
| "chunks (Suc k) n xs = take n xs # chunks k n (drop n xs)"

type_synonym md5_state = "u32 \<times> u32 \<times> u32 \<times> u32"

fun md5_step :: "u32 list \<Rightarrow> md5_state \<Rightarrow> nat \<Rightarrow> md5_state" where
  "md5_step M (A, B, C, D) i =
    (let (F, g) =
       (if i < 16 then ((B AND C) OR (NOT B AND D), i)
        else if i < 32 then ((D AND B) OR (NOT D AND C), (5 * i + 1) mod 16)
        else if i < 48 then (B XOR C XOR D, (3 * i + 5) mod 16)
        else (C XOR (B OR NOT D), (7 * i) mod 16));
         F' = F + A + md5_K ! i + M ! g
     in (D, B + leftrotate F' (md5_s ! i), B, C))"

fun md5_block :: "md5_state \<Rightarrow> byte list \<Rightarrow> md5_state" where
  "md5_block (a0, b0, c0, d0) blk =
    (let M = map le_word32 (chunks 16 4 blk);
         (A, B, C, D) = foldl (md5_step M) (a0, b0, c0, d0) [0..<64]
     in (a0 + A, b0 + B, c0 + C, d0 + D))"

definition md5 :: "byte list \<Rightarrow> byte list" where
  "md5 msg =
    (let p = md5_pad msg;
         (a, b, c, d) =
           foldl md5_block (0x67452301, 0xefcdab89, 0x98badcfe, 0x10325476)
             (chunks (length p div 64) 64 p)
     in le_bytes32 a @ le_bytes32 b @ le_bytes32 c @ le_bytes32 d)"

text \<open>\<open>hexdigest()\<close>: two lowercase hexadecimal digits per byte.\<close>

definition hex_digit :: "nat \<Rightarrow> char" where
  "hex_digit d = ''0123456789abcdef'' ! d"

definition hex_byte :: "byte \<Rightarrow> string" where
  "hex_byte b = [hex_digit (unat b div 16), hex_digit (unat b mod 16)]"

definition hexdigest :: "byte list \<Rightarrow> string" where
  "hexdigest bs = concat (map hex_byte bs)"

text \<open>
  \<open>int(s, 16)\<close> on a string of hexadecimal digits, the only strings \<open>hexdigest()\<close>
  returns.  An empty string or any other character is a \<open>ValueError\<close> here (Python
  also accepts a sign, a \<open>0x\<close> prefix, blanks and underscores, which no digest holds).
\<close>

definition hex_value :: "char \<Rightarrow> nat option" where
  "hex_value c =
    (let n = (of_char c :: nat) in
     if 48 \<le> n \<and> n \<le> 57 then Some (n - 48)
     else if 97 \<le> n \<and> n \<le> 102 then Some (n - 87)
     else if 65 \<le> n \<and> n \<le> 70 then Some (n - 55)
     else None)"

fun int_digits16 :: "int \<Rightarrow> string \<Rightarrow> exn + int" where
  "int_digits16 acc [] = Inr acc"
| "int_digits16 acc (c # cs) =
    (case hex_value c of
       None \<Rightarrow> Inl (ValueError ''invalid literal for int() with base 16'')
     | Some d \<Rightarrow> int_digits16 (16 * acc + int d) cs)"

definition int_base16 :: "string \<Rightarrow> exn + int" where
  "int_base16 s =
    (if s = [] then Inl (ValueError ''invalid literal for int() with base 16'')
     else int_digits16 0 s)"

section \<open>Lists: indexing as Python does it\<close>

text \<open>
  A negative index counts from the end; an index outside the list raises
  \<open>IndexError\<close>, on a read and on a store.
\<close>

definition list_index :: "'a list \<Rightarrow> int \<Rightarrow> nat option" where
  "list_index xs i =
    (if i < - int (length xs) \<or> int (length xs) \<le> i then None
     else if i < 0 then Some (nat (i + int (length xs)))
     else Some (nat i))"

definition getitem :: "'a list \<Rightarrow> int \<Rightarrow> exn + 'a" where
  "getitem xs i =
    (case list_index xs i of None \<Rightarrow> Inl IndexError | Some k \<Rightarrow> Inr (xs ! k))"

definition setitem :: "'a list \<Rightarrow> int \<Rightarrow> 'a \<Rightarrow> exn + 'a list" where
  "setitem xs i v =
    (case list_index xs i of None \<Rightarrow> Inl IndexError | Some k \<Rightarrow> Inr (xs[k := v]))"

text \<open>\<open>all(xs)\<close> and \<open>int(x)\<close> of a float (truncation towards zero).\<close>

definition py_all :: "bool list \<Rightarrow> bool" where
  "py_all bs = list_all (\<lambda>b. b) bs"

definition int_of_float :: "real \<Rightarrow> int" where
  "int_of_float x = (if 0 \<le> x then \<lfloor>x\<rfloor> else \<lceil>x\<rceil>)"

section \<open>The filter\<close>

text \<open>
  The fields \<open>_num_words\<close>, \<open>_num_bits\<close>, \<open>_false_positive_prob\<close>, \<open>_num_hash\<close>
  and \<open>_bit_array\<close>.  The first two hold the constructor's arguments as they were
  passed; the read-only properties \<open>num_words\<close>, \<open>num_bits\<close>,
  \<open>false_positive_probability\<close> and \<open>num_hash\<close> return the fields, so the selectors
  stand for both.
\<close>

record BloomFilter =
  num_words :: pyval
  num_bits :: pyval
  false_positive_prob :: real
  num_hash :: int
  bit_array :: "bool list"

subsection \<open>Validation\<close>

definition validate_num_words :: "pyval \<Rightarrow> exn + unit" where
  "validate_num_words n =
    (if \<not> isinstance_int n then Inl (TypeError ''Number of words should be an integer'')
     else if int_val n \<le> 0 then Inl (ValueError ''Number of words should be positive'')
     else Inr ())"

definition validate_num_bits :: "pyval \<Rightarrow> exn + unit" where
  "validate_num_bits m =
    (if \<not> isinstance_int m then Inl (TypeError ''Length of bit array should be an integer'')
     else if int_val m \<le> 0 then Inl (ValueError ''Length of bit array should be positive'')
     else Inr ())"

definition validate_probability :: "pyval \<Rightarrow> exn + unit" where
  "validate_probability p =
    (if \<not> isinstance_Number p then Inl (TypeError ''Probability should be a number'')
     else if num_val p \<le> 0 \<or> num_val p \<ge> 1
       then Inl (ValueError ''Probability should be a number in (0,1)'')
     else Inr ())"

definition validate_word :: "pyval \<Rightarrow> exn + unit" where
  "validate_word w =
    (if \<not> isinstance_str w then Inl (TypeError ''Word should be a string'')
     else Inr ())"

subsection \<open>Parameter arithmetic\<close>

text \<open>
  \<open>math.log\<close> raises on a non-positive argument and \<open>/\<close> on a zero divisor; the
  validators keep both away, and the model keeps the branches.
\<close>

definition calculate_num_bits :: "int \<Rightarrow> real \<Rightarrow> exn + int" where
  "calculate_num_bits n p =
    (if p \<le> 0 then Inl (ValueError ''math domain error'')
     else Inr \<lceil>- (real_of_int n * ln p) / (ln 2) ^ 2\<rceil>)"

definition calculate_num_hash :: "int \<Rightarrow> int \<Rightarrow> exn + int" where
  "calculate_num_hash n m =
    (if n = 0 then Inl ZeroDivisionError
     else Inr (int_of_float ((real_of_int m / real_of_int n) * ln 2)))"

definition calculate_false_positive :: "int \<Rightarrow> int \<Rightarrow> exn + real" where
  "calculate_false_positive n m =
    (if n = 0 then Inl ZeroDivisionError
     else Inr (exp (- (real_of_int m / real_of_int n) * (ln 2) ^ 2)))"

subsection \<open>Construction\<close>

definition BloomFilter_init :: "pyval \<Rightarrow> pyval \<Rightarrow> exn + BloomFilter" where
  "BloomFilter_init n m =
    (case validate_num_words n of Inl e \<Rightarrow> Inl e | Inr _ \<Rightarrow>
     case validate_num_bits m of Inl e \<Rightarrow> Inl e | Inr _ \<Rightarrow>
     case calculate_false_positive (int_val n) (int_val m) of Inl e \<Rightarrow> Inl e | Inr fp \<Rightarrow>
     case calculate_num_hash (int_val n) (int_val m) of Inl e \<Rightarrow> Inl e | Inr k \<Rightarrow>
       Inr \<lparr>num_words = n, num_bits = m, false_positive_prob = fp, num_hash = k,
            bit_array = replicate (nat (int_val m)) False\<rparr>)"

definition with_false_positive_constraint :: "pyval \<Rightarrow> pyval \<Rightarrow> exn + BloomFilter" where
  "with_false_positive_constraint n p =
    (case validate_num_words n of Inl e \<Rightarrow> Inl e | Inr _ \<Rightarrow>
     case validate_probability p of Inl e \<Rightarrow> Inl e | Inr _ \<Rightarrow>
     case calculate_num_bits (int_val n) (num_val p) of Inl e \<Rightarrow> Inl e | Inr m \<Rightarrow>
       BloomFilter_init n (PyInt m))"

subsection \<open>Hashing\<close>

text \<open>
  \<open>h1\<close> is read from \<open>hexdigest()[:15]\<close> and \<open>h2\<close> from \<open>hexdigest()[16:]\<close>; the
  positions are \<open>(h1 + i*h2) % num_bits\<close> for \<open>i\<close> in \<open>range(1, num_hash + 1)\<close>.
\<close>

definition get_hashes :: "BloomFilter \<Rightarrow> pystr \<Rightarrow> exn + int list" where
  "get_hashes f word =
    (case encode word of Inl e \<Rightarrow> Inl e | Inr bs \<Rightarrow>
     case int_base16 (take 15 (hexdigest (md5 bs))) of Inl e \<Rightarrow> Inl e | Inr h1 \<Rightarrow>
     case int_base16 (drop 16 (hexdigest (md5 bs))) of Inl e \<Rightarrow> Inl e | Inr h2 \<Rightarrow>
       if 1 \<le> num_hash f \<and> int_val (num_bits f) = 0 then Inl ZeroDivisionError
       else Inr (map (\<lambda>i. (h1 + i * h2) mod int_val (num_bits f)) [1..num_hash f]))"

subsection \<open>Insert and query\<close>

text \<open>
  An operation returns its outcome (the exception or the value) and the filter as the
  call leaves it: the object is mutated in place, so what was stored before an exception
  stays stored.
\<close>

fun set_bits :: "BloomFilter \<Rightarrow> int list \<Rightarrow> (exn + unit) \<times> BloomFilter" where
  "set_bits f [] = (Inr (), f)"
| "set_bits f (i # is) =
    (case setitem (bit_array f) i True of
       Inl e \<Rightarrow> (Inl e, f)
     | Inr bits \<Rightarrow> set_bits (f\<lparr>bit_array := bits\<rparr>) is)"

definition add :: "BloomFilter \<Rightarrow> pyval \<Rightarrow> (exn + unit) \<times> BloomFilter" where
  "add f w =
    (case validate_word w of Inl e \<Rightarrow> (Inl e, f) | Inr _ \<Rightarrow>
     case get_hashes f (str_val w) of Inl e \<Rightarrow> (Inl e, f) | Inr bit_indices \<Rightarrow>
       set_bits f bit_indices)"

fun read_bits :: "bool list \<Rightarrow> int list \<Rightarrow> exn + bool list" where
  "read_bits bits [] = Inr []"
| "read_bits bits (i # is) =
    (case getitem bits i of
       Inl e \<Rightarrow> Inl e
     | Inr b \<Rightarrow> (case read_bits bits is of Inl e \<Rightarrow> Inl e | Inr bs \<Rightarrow> Inr (b # bs)))"

definition query :: "BloomFilter \<Rightarrow> pyval \<Rightarrow> (exn + bool) \<times> BloomFilter" where
  "query f w =
    (case validate_word w of Inl e \<Rightarrow> (Inl e, f) | Inr _ \<Rightarrow>
     case get_hashes f (str_val w) of Inl e \<Rightarrow> (Inl e, f) | Inr bit_indices \<Rightarrow>
     case read_bits (bit_array f) bit_indices of Inl e \<Rightarrow> (Inl e, f) | Inr bs \<Rightarrow>
       (Inr (py_all bs), f))"

text \<open>The filter after a sequence of \<open>add\<close> calls, whatever each of them returned.\<close>

fun add_all :: "BloomFilter \<Rightarrow> pyval list \<Rightarrow> BloomFilter" where
  "add_all f [] = f"
| "add_all f (w # ws) = add_all (snd (add f w)) ws"

subsection \<open>Description\<close>

text \<open>
  \<open>str(x)\<close>: an \<open>int\<close> in decimal, a \<open>bool\<close> by its name.  How a \<open>float\<close> prints
  (the shortest decimal that reads back as the same double) depends on its binary
  representation, so the printing of floats is a parameter \<open>repr_float\<close>.
\<close>

fun str_nat :: "nat \<Rightarrow> string" where
  "str_nat n =
    (if n < 10 then [hex_digit n] else str_nat (n div 10) @ [hex_digit (n mod 10)])"

definition str_int :: "int \<Rightarrow> string" where
  "str_int i = (if i < 0 then CHR ''-'' # str_nat (nat (- i)) else str_nat (nat i))"

definition literal :: "string \<Rightarrow> pystr" where
  "literal s = map of_char s"

fun py_str :: "(real \<Rightarrow> pystr) \<Rightarrow> pyval \<Rightarrow> pystr" where
  "py_str repr_float PyNone = literal ''None''"
| "py_str repr_float (PyBool b) = literal (if b then ''True'' else ''False'')"
| "py_str repr_float (PyInt i) = literal (str_int i)"
| "py_str repr_float (PyFloat r) = repr_float r"
| "py_str repr_float (PyStr s) = s"

definition BloomFilter_str :: "(real \<Rightarrow> pystr) \<Rightarrow> BloomFilter \<Rightarrow> pystr" where
  "BloomFilter_str repr_float f =
    literal ''Word Capacity = '' @ py_str repr_float (num_words f) @ [10]
    @ literal ''Number of bits = '' @ py_str repr_float (num_bits f) @ [10]
    @ literal ''False positive probability = ''
    @ py_str repr_float (PyFloat (false_positive_prob f))"

section \<open>What the specification says\<close>

text \<open>
  Hash derivation in the specification's words: \<open>h1\<close> is the first half of the digest
  and \<open>h2\<close> the second half, each read as a non-negative integer, and the positions are
  \<open>(h1 + i * h2) mod bit_count\<close> for \<open>i = 1, ..., hash_count\<close>.
\<close>

definition spec_get_hashes :: "BloomFilter \<Rightarrow> pystr \<Rightarrow> exn + int list" where
  "spec_get_hashes f word =
    (case encode word of Inl e \<Rightarrow> Inl e | Inr bs \<Rightarrow>
     case int_base16 (take 16 (hexdigest (md5 bs))) of Inl e \<Rightarrow> Inl e | Inr h1 \<Rightarrow>
     case int_base16 (drop 16 (hexdigest (md5 bs))) of Inl e \<Rightarrow> Inl e | Inr h2 \<Rightarrow>
       Inr (map (\<lambda>i. (h1 + i * h2) mod int_val (num_bits f)) [1..num_hash f]))"


section \<open>The invariant of a constructed filter\<close>

text \<open>
  The bit array is as long as \<open>num_bits\<close> says, and \<open>num_bits\<close> is positive.  Both
  constructors establish it and \<open>add\<close> keeps it.
\<close>

definition filter_inv :: "BloomFilter \<Rightarrow> bool" where
  "filter_inv f \<longleftrightarrow>
    0 < int_val (num_bits f) \<and> length (bit_array f) = nat (int_val (num_bits f))"

section \<open>The filters of the driver\<close>

text \<open>
  \<open>bloom1\<close> is what \<open>BloomFilter(100, 400)\<close> returns, the first example of the driver;
  \<open>degenerate\<close> is what \<open>BloomFilter(1, 1)\<close> returns, a filter with no hash function.
\<close>

definition bloom1 :: BloomFilter where
  "bloom1 =
    \<lparr>num_words = PyInt 100, num_bits = PyInt 400,
     false_positive_prob = exp (- 4 * (ln 2) ^ 2), num_hash = 2,
     bit_array = replicate 400 False\<rparr>"

definition degenerate :: BloomFilter where
  "degenerate =
    \<lparr>num_words = PyInt 1, num_bits = PyInt 1,
     false_positive_prob = exp (- ((ln 2) ^ 2)), num_hash = 0,
     bit_array = [False]\<rparr>"

section \<open>The digest and its two integers\<close>

lemma length_le_bytes32: "length (le_bytes32 w) = 4"
  by (simp add: le_bytes32_def)

lemma length_md5: "length (md5 msg) = 16"
  by (simp add: md5_def Let_def length_le_bytes32 split: prod.splits)

lemma hex_value_hex_digit: "d < 16 \<Longrightarrow> hex_value (hex_digit d) = Some d"
proof -
  assume "d < 16"
  then have "d \<in> set [0..<16]"
    by simp
  moreover have "\<forall>d\<in>set [0..<16]. hex_value (hex_digit d) = Some d"
    by code_simp
  ultimately show ?thesis
    by blast
qed

lemma hex_byte_digits: "c \<in> set (hex_byte b) \<Longrightarrow> hex_value c \<noteq> None"
proof -
  assume c: "c \<in> set (hex_byte b)"
  have "unat b < 256"
    using unsigned_less [of b, where ?'a = nat] by simp
  then have "unat b div 16 < 16" "unat b mod 16 < 16"
    by simp_all
  with c show ?thesis
    by (auto simp: hex_byte_def hex_value_hex_digit)
qed

lemma hexdigest_digits: "c \<in> set (hexdigest bs) \<Longrightarrow> hex_value c \<noteq> None"
  by (auto simp: hexdigest_def dest: hex_byte_digits)

lemma length_hexdigest: "length (hexdigest bs) = 2 * length bs"
  by (induction bs) (simp_all add: hexdigest_def hex_byte_def)

lemma int_digits16_ok:
  "(\<And>c. c \<in> set s \<Longrightarrow> hex_value c \<noteq> None) \<Longrightarrow> 0 \<le> acc \<Longrightarrow>
   \<exists>h. int_digits16 acc s = Inr h \<and> 0 \<le> h"
proof (induction s arbitrary: acc)
  case Nil
  then show ?case by simp
next
  case (Cons c cs)
  from Cons.prems(1) [of c] obtain d where d: "hex_value c = Some d"
    by auto
  have "0 \<le> 16 * acc + int d"
    using Cons.prems(2) by simp
  with Cons.IH [of "16 * acc + int d"] Cons.prems(1) d show ?case
    by simp
qed

lemma digest_halves:
  "\<exists>h1 h2. int_base16 (take 15 (hexdigest (md5 bs))) = Inr h1 \<and>
           int_base16 (drop 16 (hexdigest (md5 bs))) = Inr h2 \<and> 0 \<le> h1 \<and> 0 \<le> h2"
proof -
  let ?d = "hexdigest (md5 bs)"
  have len: "length ?d = 32"
    by (simp add: length_hexdigest length_md5)
  have ne: "take 15 ?d \<noteq> []" "drop 16 ?d \<noteq> []"
    using len by auto
  have "\<And>c. c \<in> set (take 15 ?d) \<Longrightarrow> hex_value c \<noteq> None"
    by (meson hexdigest_digits in_set_takeD)
  then obtain h1 where h1: "int_digits16 0 (take 15 ?d) = Inr h1" "0 \<le> h1"
    using int_digits16_ok [of "take 15 ?d" 0] by auto
  have "\<And>c. c \<in> set (drop 16 ?d) \<Longrightarrow> hex_value c \<noteq> None"
    by (meson hexdigest_digits in_set_dropD)
  then obtain h2 where h2: "int_digits16 0 (drop 16 ?d) = Inr h2" "0 \<le> h2"
    using int_digits16_ok [of "drop 16 ?d" 0] by auto
  from h1 h2 ne show ?thesis
    by (simp add: int_base16_def)
qed

lemma utf8_char_error: "utf8_char c = Inl e \<Longrightarrow> e = UnicodeEncodeError"
  by (auto split: if_splits)

declare utf8_char.simps [simp del]

declare str_nat.simps [simp del]

lemma encode_error: "encode w = Inl e \<Longrightarrow> e = UnicodeEncodeError"
  by (induction w) (auto split: sum.splits dest: utf8_char_error)

section \<open>Hash positions\<close>

lemma get_hashes_frame:
  "num_bits f' = num_bits f \<Longrightarrow> num_hash f' = num_hash f \<Longrightarrow> get_hashes f' w = get_hashes f w"
  by (simp add: get_hashes_def cong: sum.case_cong if_cong)

lemma get_hashes_encode_error: "encode w = Inl e \<Longrightarrow> get_hashes f w = Inl UnicodeEncodeError"
  by (simp add: get_hashes_def encode_error)

lemma get_hashes_error: "get_hashes f w = Inl e \<Longrightarrow> filter_inv f \<Longrightarrow> encode w = Inl UnicodeEncodeError \<and> e = UnicodeEncodeError"
  using digest_halves [of "projr (encode w)"]
  by (cases "encode w") (auto simp: get_hashes_def filter_inv_def dest: encode_error split: sum.splits if_splits)

lemma get_hashes_ok:
  assumes "encode w = Inr bs" and "0 < int_val (num_bits f)"
  shows "\<exists>idx. get_hashes f w = Inr idx \<and> length idx = nat (num_hash f) \<and>
           (\<forall>i\<in>set idx. 0 \<le> i \<and> i < int_val (num_bits f))"
proof -
  obtain h1 h2 where
    "int_base16 (take 15 (hexdigest (md5 bs))) = Inr h1"
    "int_base16 (drop 16 (hexdigest (md5 bs))) = Inr h2"
    using digest_halves [of bs] by blast
  with assms show ?thesis
    by (simp add: get_hashes_def)
qed

lemma get_hashes_zero:
  assumes "encode w = Inr bs" and "num_hash f \<le> 0"
  shows "get_hashes f w = Inr []"
proof -
  obtain h1 h2 where
    "int_base16 (take 15 (hexdigest (md5 bs))) = Inr h1"
    "int_base16 (drop 16 (hexdigest (md5 bs))) = Inr h2"
    using digest_halves [of bs] by blast
  with assms show ?thesis
    by (simp add: get_hashes_def)
qed

section \<open>Reading and setting bits\<close>

lemma list_index_update: "list_index (xs[a := v]) i = list_index xs i"
  by (simp add: list_index_def)

lemma list_index_less: "list_index xs i = Some k \<Longrightarrow> k < length xs"
  by (auto simp: list_index_def split: if_splits)

lemma setitem_length: "setitem xs i v = Inr ys \<Longrightarrow> length ys = length xs"
  by (auto simp: setitem_def split: option.splits)

lemma setitem_getitem: "setitem xs i v = Inr ys \<Longrightarrow> getitem ys i = Inr v"
proof -
  assume set: "setitem xs i v = Inr ys"
  then obtain k where k: "list_index xs i = Some k" and ys: "ys = xs[k := v]"
    by (auto simp: setitem_def split: option.splits)
  have "list_index ys i = Some k"
    using k ys by (simp add: list_index_update)
  then show ?thesis
    using ys list_index_less [OF k] by (simp add: getitem_def)
qed

lemma setitem_mono:
  "setitem xs i True = Inr ys \<Longrightarrow> getitem xs k = Inr True \<Longrightarrow> getitem ys k = Inr True"
proof -
  assume set: "setitem xs i True = Inr ys" and get: "getitem xs k = Inr True"
  from set obtain a where ys: "ys = xs[a := True]"
    by (auto simp: setitem_def split: option.splits)
  from get obtain b where b: "list_index xs k = Some b" and bit: "xs ! b"
    by (auto simp: getitem_def split: option.splits)
  have "list_index ys k = Some b"
    using b ys by (simp add: list_index_update)
  moreover have "ys ! b"
    using bit ys list_index_less [OF b] by (cases "a = b") (simp_all add: nth_list_update)
  ultimately show ?thesis
    by (simp add: getitem_def)
qed

lemma setitem_id: "getitem xs i = Inr v \<Longrightarrow> setitem xs i v = Inr xs"
  by (auto simp: setitem_def getitem_def split: option.splits)

lemma setitem_in_range:
  "0 \<le> i \<Longrightarrow> i < int (length xs) \<Longrightarrow> setitem xs i v = Inr (xs[nat i := v])"
  by (simp add: setitem_def list_index_def)


lemma set_bits_frame:
  "set_bits f idx = (r, f') \<Longrightarrow>
   num_words f' = num_words f \<and> num_bits f' = num_bits f \<and>
   false_positive_prob f' = false_positive_prob f \<and> num_hash f' = num_hash f \<and>
   length (bit_array f') = length (bit_array f)"
proof (induction idx arbitrary: f)
  case Nil
  then show ?case by simp
next
  case (Cons i idx)
  show ?case
  proof (cases "setitem (bit_array f) i True")
    case (Inl e)
    with Cons.prems show ?thesis by simp
  next
    case (Inr bits)
    with Cons.prems have "set_bits (f\<lparr>bit_array := bits\<rparr>) idx = (r, f')"
      by simp
    from Cons.IH [OF this] setitem_length [OF Inr] show ?thesis
      by simp
  qed
qed

lemma set_bits_mono:
  "set_bits f idx = (r, f') \<Longrightarrow> getitem (bit_array f) k = Inr True \<Longrightarrow>
   getitem (bit_array f') k = Inr True"
proof (induction idx arbitrary: f)
  case Nil
  then show ?case by simp
next
  case (Cons i idx)
  show ?case
  proof (cases "setitem (bit_array f) i True")
    case (Inl e)
    with Cons.prems show ?thesis by simp
  next
    case (Inr bits)
    with Cons.prems have step: "set_bits (f\<lparr>bit_array := bits\<rparr>) idx = (r, f')"
      by simp
    have "getitem (bit_array (f\<lparr>bit_array := bits\<rparr>)) k = Inr True"
      using setitem_mono [OF Inr Cons.prems(2)] by simp
    from Cons.IH [OF step this] show ?thesis .
  qed
qed

lemma set_bits_sets:
  "set_bits f idx = (Inr (), f') \<Longrightarrow> i \<in> set idx \<Longrightarrow> getitem (bit_array f') i = Inr True"
proof (induction idx arbitrary: f)
  case Nil
  then show ?case by simp
next
  case (Cons j idx)
  show ?case
  proof (cases "setitem (bit_array f) j True")
    case (Inl e)
    with Cons.prems show ?thesis by simp
  next
    case (Inr bits)
    with Cons.prems have step: "set_bits (f\<lparr>bit_array := bits\<rparr>) idx = (Inr (), f')"
      by simp
    show ?thesis
    proof (cases "i = j")
      case True
      have "getitem (bit_array (f\<lparr>bit_array := bits\<rparr>)) j = Inr True"
        using setitem_getitem [OF Inr] by simp
      from set_bits_mono [OF step this] True show ?thesis by simp
    next
      case False
      with Cons.prems have "i \<in> set idx" by simp
      from Cons.IH [OF step this] show ?thesis .
    qed
  qed
qed

lemma set_bits_idem: "set_bits f idx = (r, f') \<Longrightarrow> set_bits f' idx = (r, f')"
proof (induction idx arbitrary: f)
  case Nil
  then show ?case by simp
next
  case (Cons i idx)
  show ?case
  proof (cases "setitem (bit_array f) i True")
    case (Inl e)
    with Cons.prems show ?thesis by auto
  next
    case (Inr bits)
    with Cons.prems have step: "set_bits (f\<lparr>bit_array := bits\<rparr>) idx = (r, f')"
      by simp
    have "getitem (bit_array (f\<lparr>bit_array := bits\<rparr>)) i = Inr True"
      using setitem_getitem [OF Inr] by simp
    from set_bits_mono [OF step this] have "setitem (bit_array f') i True = Inr (bit_array f')"
      by (rule setitem_id)
    with Cons.IH [OF step] show ?thesis
      by simp
  qed
qed

lemma set_bits_in_range:
  "(\<And>i. i \<in> set idx \<Longrightarrow> 0 \<le> i \<and> i < int (length (bit_array f))) \<Longrightarrow>
   fst (set_bits f idx) = Inr ()"
proof (induction idx arbitrary: f)
  case Nil
  then show ?case by simp
next
  case (Cons i idx)
  have "setitem (bit_array f) i True = Inr ((bit_array f)[nat i := True])"
    using Cons.prems [of i] by (simp add: setitem_in_range)
  moreover have "fst (set_bits (f\<lparr>bit_array := (bit_array f)[nat i := True]\<rparr>) idx) = Inr ()"
    using Cons.prems by (intro Cons.IH) simp
  ultimately show ?case by simp
qed

lemma read_bits_all_set:
  "(\<And>i. i \<in> set idx \<Longrightarrow> getitem bits i = Inr True) \<Longrightarrow>
   read_bits bits idx = Inr (replicate (length idx) True)"
  by (induction idx) simp_all


lemma py_all_replicate: "py_all (replicate n True)"
  by (simp add: py_all_def list_all_iff)

section \<open>Insert and query\<close>

lemma add_cases:
  obtains (invalid) e where "validate_word w = Inl e" "add f w = (Inl e, f)"
  | (unhashable) e where "validate_word w = Inr ()" "get_hashes f (str_val w) = Inl e" "add f w = (Inl e, f)"
  | (stored) idx where "validate_word w = Inr ()" "get_hashes f (str_val w) = Inr idx" "add f w = set_bits f idx"
  by (cases "validate_word w"; cases "get_hashes f (str_val w)") (auto simp: add_def)

lemma add_frame:
  "num_words (snd (add f w)) = num_words f \<and> num_bits (snd (add f w)) = num_bits f \<and>
   false_positive_prob (snd (add f w)) = false_positive_prob f \<and>
   num_hash (snd (add f w)) = num_hash f \<and>
   length (bit_array (snd (add f w))) = length (bit_array f)"
proof (cases rule: add_cases [of w f])
  case (stored idx)
  then show ?thesis
    using set_bits_frame [of f idx "fst (set_bits f idx)" "snd (set_bits f idx)"] by simp
qed simp_all

lemma add_mono:
  "getitem (bit_array f) k = Inr True \<Longrightarrow> getitem (bit_array (snd (add f w))) k = Inr True"
proof (cases rule: add_cases [of w f])
  case (stored idx)
  assume "getitem (bit_array f) k = Inr True"
  then show ?thesis
    using stored set_bits_mono [of f idx "fst (set_bits f idx)" "snd (set_bits f idx)" k] by simp
qed simp_all

lemma add_all_frame:
  "num_words (add_all f ws) = num_words f \<and> num_bits (add_all f ws) = num_bits f \<and>
   false_positive_prob (add_all f ws) = false_positive_prob f \<and>
   num_hash (add_all f ws) = num_hash f \<and>
   length (bit_array (add_all f ws)) = length (bit_array f)"
  by (induction ws arbitrary: f) (simp_all add: add_frame)

lemma add_all_mono:
  "getitem (bit_array f) k = Inr True \<Longrightarrow> getitem (bit_array (add_all f ws)) k = Inr True"
  by (induction ws arbitrary: f) (simp_all add: add_mono)

lemma add_stored:
  "validate_word w = Inr () \<Longrightarrow> get_hashes f (str_val w) = Inr idx \<Longrightarrow> add f w = set_bits f idx"
  by (simp add: add_def)

lemma add_idem: "add (snd (add f w)) w = add f w"
proof (cases rule: add_cases [of w f])
  case (stored idx)
  obtain r f' where run: "set_bits f idx = (r, f')"
    by (cases "set_bits f idx")
  have "get_hashes f' (str_val w) = get_hashes f (str_val w)"
    using set_bits_frame [OF run] by (intro get_hashes_frame) simp_all
  then have "add f' w = set_bits f' idx"
    using stored by (intro add_stored) simp_all
  also have "\<dots> = (r, f')"
    using run by (rule set_bits_idem)
  finally show ?thesis
    using stored(3) run by simp
qed simp_all

lemma query_all_set:
  assumes "get_hashes f w = Inr idx"
    and "\<And>i. i \<in> set idx \<Longrightarrow> getitem (bit_array f) i = Inr True"
  shows "query f (PyStr w) = (Inr True, f)"
proof -
  have "read_bits (bit_array f) idx = Inr (replicate (length idx) True)"
    using assms(2) by (rule read_bits_all_set)
  with assms(1) show ?thesis
    by (simp add: query_def validate_word_def py_all_replicate)
qed

lemma query_frame: "snd (query f w) = f"
  by (simp add: query_def split: sum.splits)

section \<open>Construction\<close>

lemma ln2_pos: "0 < ln (2::real)"
  by simp

lemma ln2_ge_half: "1 / 2 \<le> ln (2::real)"
proof -
  have "(exp (1 / 2 :: real)) ^ 2 = exp 1"
    by (simp add: exp_double [symmetric])
  also have "\<dots> \<le> 3"
    by (rule exp_le)
  also have "\<dots> \<le> (2::real) ^ 2"
    by simp
  finally have "exp (1 / 2 :: real) \<le> 2"
    by (rule power2_le_imp_le) simp
  then show ?thesis
    by (subst ln_ge_iff) simp_all
qed

lemma ln2_less_three_quarters: "ln (2::real) < 3 / 4"
proof -
  have "(2::real) < 1 + 3 / 4 + (3 / 4)\<^sup>2 / 2"
    by (simp add: power2_eq_square)
  also have "\<dots> \<le> exp (3 / 4)"
    by (rule exp_lower_Taylor_quadratic) simp
  finally have "exp (ln (2::real)) < exp (3 / 4)"
    by simp
  then show ?thesis
    by (simp only: exp_less_cancel_iff)
qed

lemma int_of_float_nonneg: "0 \<le> x \<Longrightarrow> int_of_float x = \<lfloor>x\<rfloor>"
  by (simp add: int_of_float_def)

lemma init_valid:
  assumes "isinstance_int n" "0 < int_val n" "isinstance_int m" "0 < int_val m"
  shows "BloomFilter_init n m =
    Inr \<lparr>num_words = n, num_bits = m,
         false_positive_prob =
           exp (- (real_of_int (int_val m) / real_of_int (int_val n)) * (ln 2) ^ 2),
         num_hash = \<lfloor>(real_of_int (int_val m) / real_of_int (int_val n)) * ln 2\<rfloor>,
         bit_array = replicate (nat (int_val m)) False\<rparr>"
proof -
  have "0 \<le> (real_of_int (int_val m) / real_of_int (int_val n)) * ln 2"
    using assms by simp
  then show ?thesis
    using assms
    by (simp add: BloomFilter_init_def validate_num_words_def validate_num_bits_def
        calculate_false_positive_def calculate_num_hash_def int_of_float_nonneg)
qed

lemma init_bloom1: "BloomFilter_init (PyInt 100) (PyInt 400) = Inr bloom1"
proof -
  have "\<lfloor>4 * ln (2::real)\<rfloor> = 2"
    using ln2_ge_half ln2_less_three_quarters by (simp add: floor_eq_iff)
  then show ?thesis
    using init_valid [of "PyInt 100" "PyInt 400"] by (simp add: bloom1_def)
qed

lemma init_degenerate: "BloomFilter_init (PyInt 1) (PyInt 1) = Inr degenerate"
proof -
  have "\<lfloor>ln (2::real)\<rfloor> = 0"
    using ln_2_less_1 by (simp add: floor_eq_iff)
  then show ?thesis
    using init_valid [of "PyInt 1" "PyInt 1"] by (simp add: degenerate_def)
qed

lemma init_inv: "BloomFilter_init n m = Inr f \<Longrightarrow> filter_inv f"
  by (auto simp: BloomFilter_init_def validate_num_words_def validate_num_bits_def
      calculate_false_positive_def calculate_num_hash_def filter_inv_def
      split: if_splits)



lemma constraint_inv: "with_false_positive_constraint n p = Inr f \<Longrightarrow> filter_inv f"
  by (auto simp: with_false_positive_constraint_def dest: init_inv split: sum.splits)

lemma add_inv: "filter_inv f \<Longrightarrow> filter_inv (snd (add f w))"
  by (simp add: filter_inv_def add_frame)

lemma add_all_inv: "filter_inv f \<Longrightarrow> filter_inv (add_all f ws)"
  by (simp add: filter_inv_def add_all_frame)

lemma digest_0_h1:
  "int_base16 (take 15 (hexdigest (md5 [0x30]))) = Inr 935853755618645598"
  by code_simp

lemma digest_0_first_half:
  "int_base16 (take 16 (hexdigest (md5 [0x30]))) = Inr 14973660089898329583"
  by code_simp

lemma digest_0_h2:
  "int_base16 (drop 16 (hexdigest (md5 [0x30]))) = Inr 7415141576215061722"
  by code_simp

lemma encode_0: "encode (literal ''0'') = Inr [0x30]"
  by code_simp

section \<open>Outcomes of the operations\<close>

lemma upto_1_2: "[1..2::int] = [1, 2]"
  by code_simp

lemma add_valid:
  assumes "filter_inv f" and "encode w = Inr bs"
  shows "fst (add f (PyStr w)) = Inr ()"
proof -
  obtain idx where idx: "get_hashes f w = Inr idx"
    and range: "\<forall>i\<in>set idx. 0 \<le> i \<and> i < int_val (num_bits f)"
    using get_hashes_ok [OF assms(2), of f] assms(1) by (auto simp: filter_inv_def)
  have "fst (set_bits f idx) = Inr ()"
    using range assms(1) by (intro set_bits_in_range) (simp add: filter_inv_def)
  with idx show ?thesis
    by (simp add: add_def validate_word_def)
qed





lemma query_unencodable:
  "isinstance_str w \<Longrightarrow> isl (encode (str_val w)) \<Longrightarrow> query f w = (Inl UnicodeEncodeError, f)"
  by (cases "encode (str_val w)")
    (simp_all add: query_def validate_word_def get_hashes_encode_error)

lemma filter_inv_bloom1: "filter_inv bloom1"
  by (simp add: filter_inv_def bloom1_def)

lemma init_cases:
  "BloomFilter_init n m =
    (if \<not> isinstance_int n then Inl (TypeError ''Number of words should be an integer'')
     else if int_val n \<le> 0 then Inl (ValueError ''Number of words should be positive'')
     else if \<not> isinstance_int m then Inl (TypeError ''Length of bit array should be an integer'')
     else if int_val m \<le> 0 then Inl (ValueError ''Length of bit array should be positive'')
     else Inr \<lparr>num_words = n, num_bits = m,
         false_positive_prob =
           exp (- (real_of_int (int_val m) / real_of_int (int_val n)) * (ln 2) ^ 2),
         num_hash = \<lfloor>(real_of_int (int_val m) / real_of_int (int_val n)) * ln 2\<rfloor>,
         bit_array = replicate (nat (int_val m)) False\<rparr>)"
proof (cases "isinstance_int n \<and> 0 < int_val n \<and> isinstance_int m \<and> 0 < int_val m")
  case True
  then show ?thesis
    using init_valid [of n m] by simp
next
  case False
  then show ?thesis
    by (auto simp: BloomFilter_init_def validate_num_words_def validate_num_bits_def)
qed



section \<open>Concrete inputs\<close>

text \<open>The digest function on the first test strings of RFC 1321.\<close>

lemma md5_empty: "hexdigest (md5 []) = ''d41d8cd98f00b204e9800998ecf8427e''"
  by code_simp

lemma md5_a: "hexdigest (md5 [0x61]) = ''0cc175b9c0f1b6a831c399e269772661''"
  by code_simp

lemma filter_inv_degenerate: "filter_inv degenerate"
  by (simp add: filter_inv_def degenerate_def)

lemma surrogate_unencodable: "isl (encode (str_val (PyStr [0xD800])))"
  by (simp add: utf8_char.simps)

lemma str_100: "literal (str_int 100) = literal ''100''"
  by code_simp

lemma str_400: "literal (str_int 400) = literal ''400''"
  by code_simp

section \<open>The claims\<close>

text \<open>
  C1.  No false negatives: once \<open>add\<close> of a string \<open>w\<close> has returned normally,
  \<open>query\<close> of \<open>w\<close> returns \<open>True\<close>, at once (\<open>ws = []\<close>) and after any further
  sequence \<open>ws\<close> of \<open>add\<close> calls with any arguments.  Nothing is assumed about the
  filter beyond the insert having returned.
\<close>

theorem no_false_negatives:
  assumes "fst (add f (PyStr w)) = Inr ()"
  shows "fst (query (add_all (snd (add f (PyStr w))) ws) (PyStr w)) = Inr True"
proof (cases rule: add_cases [of "PyStr w" f])
  case (invalid e)
  with assms show ?thesis by simp
next
  case (unhashable e)
  with assms show ?thesis by simp
next
  case (stored idx)
  let ?f1 = "snd (add f (PyStr w))"
  let ?f2 = "add_all ?f1 ws"
  from stored(3) assms have run: "set_bits f idx = (Inr (), ?f1)"
    by (cases "set_bits f idx") simp
  have "get_hashes ?f2 w = get_hashes f w"
    by (intro get_hashes_frame) (simp_all add: add_all_frame add_frame)
  with stored(2) have hashes: "get_hashes ?f2 w = Inr idx"
    by simp
  have "getitem (bit_array ?f2) i = Inr True" if "i \<in> set idx" for i
    using set_bits_sets [OF run that] by (rule add_all_mono)
  with hashes have "query ?f2 (PyStr w) = (Inr True, ?f2)"
    by (rule query_all_set)
  then show ?thesis
    by simp
qed

theorem no_false_negatives_witness:
  "fst (add bloom1 (PyStr (literal ''0''))) = Inr () \<and>
   fst (query (add_all (snd (add bloom1 (PyStr (literal ''0''))))
                 [PyStr (literal ''1''), PyInt 7, PyStr (literal ''0'')])
          (PyStr (literal ''0''))) = Inr True"
proof -
  have h: "fst (add bloom1 (PyStr (literal ''0''))) = Inr ()"
    using filter_inv_bloom1 encode_0 by (rule add_valid)
  show ?thesis
    by (rule conjI [OF h no_false_negatives [OF h]])
qed

text \<open>
  C4.  Insert is idempotent: for every filter state and every argument \<open>w\<close>, a second
  \<open>add\<close> of \<open>w\<close> leaves the filter, its bit array included, as the first one left it.
\<close>

theorem add_idempotent: "snd (add (snd (add f w)) w) = snd (add f w)"
  by (simp add: add_idem)

theorem add_idempotent_witness:
  "snd (add (snd (add bloom1 (PyStr (literal ''0'')))) (PyStr (literal ''0''))) =
   snd (add bloom1 (PyStr (literal ''0'')))"
  by (rule add_idempotent)

text \<open>
  C10.  Query only observes: for every filter state and every argument, the filter after
  \<open>query\<close> is the filter before it, field by field.
\<close>

theorem query_observation_only:
  "snd (query f w) = f \<and>
   bit_array (snd (query f w)) = bit_array f \<and> num_bits (snd (query f w)) = num_bits f \<and>
   num_hash (snd (query f w)) = num_hash f \<and> num_words (snd (query f w)) = num_words f \<and>
   false_positive_prob (snd (query f w)) = false_positive_prob f"
  by (simp add: query_frame)









text \<open>
  C3.  The specification takes \<open>h1\<close> from the first half of the digest, its first 16
  hexadecimal digits, and the comment in the source says the digest is sliced into two
  halves.  The code reads \<open>hexdigest()[:15]\<close>, one digit short, so \<open>h1\<close> is the first
  half without its last digit.  For the word \<open>"0"\<close> in the filter of
  \<open>BloomFilter(100, 400)\<close> the code yields the positions 120 and 242, the specification
  105 and 227.
\<close>

theorem get_hashes_drops_a_digit:
  "get_hashes bloom1 (literal ''0'') = Inr [120, 242] \<and>
   spec_get_hashes bloom1 (literal ''0'') = Inr [105, 227]"
  by (simp add: get_hashes_def spec_get_hashes_def encode_0 digest_0_h1
      digest_0_first_half digest_0_h2 bloom1_def upto_1_2)


text \<open>
  C7, as amended.  In a filter whose hash count is 0, \<open>query\<close> returns \<open>True\<close> for every
  string that has a UTF-8 encoding, inserted or not, and \<open>add\<close> of such a string leaves
  the filter as it was.  Nothing else is assumed about the filter.
\<close>

theorem zero_hash_count:
  assumes "num_hash f = 0" and "encode w = Inr bs"
  shows "query f (PyStr w) = (Inr True, f) \<and> add f (PyStr w) = (Inr (), f)"
proof -
  have "get_hashes f w = Inr []"
    using assms by (intro get_hashes_zero) simp_all
  then show ?thesis
    by (simp add: query_def add_def validate_word_def py_all_def)
qed

theorem zero_hash_count_witness:
  "num_hash degenerate = 0 \<and> encode (literal ''0'') = Inr [0x30] \<and>
   query degenerate (PyStr (literal ''0'')) = (Inr True, degenerate) \<and>
   add degenerate (PyStr (literal ''0'')) = (Inr (), degenerate)"
proof -
  have k: "num_hash degenerate = 0"
    by (simp add: degenerate_def)
  show ?thesis
    using k encode_0 zero_hash_count [OF k encode_0] by simp
qed


text \<open>
  C7, as stated, fails: a \<open>str\<close> holding the lone surrogate \<open>U+D800\<close> passes
  \<open>_validate_word\<close>, and \<open>word.encode()\<close> raises before any position is looked at, in
  the filter \<open>BloomFilter(1, 1)\<close> whose hash count is 0 as in any other.
\<close>

theorem zero_hash_count_surrogate:
  "BloomFilter_init (PyInt 1) (PyInt 1) = Inr degenerate \<and> num_hash degenerate = 0 \<and>
   isinstance_str (PyStr [0xD800]) \<and>
   query degenerate (PyStr [0xD800]) = (Inl UnicodeEncodeError, degenerate)"
proof -
  have "query degenerate (PyStr [0xD800]) = (Inl UnicodeEncodeError, degenerate)"
    by (rule query_unencodable [OF _ surrogate_unencodable]) simp
  moreover have "num_hash degenerate = 0"
    by (simp add: degenerate_def)
  ultimately show ?thesis
    using init_degenerate by simp
qed









text \<open>
  C9, as amended.  The description of a constructed filter, after any inserts, is three
  lines: the capacity and the bit-array length as they were passed to the constructor,
  and the false-positive estimate derived from them.  The hash count is not in it; the
  accessor \<open>num_hash\<close> returns the value derived at construction.
\<close>

theorem description_reports:
  assumes "BloomFilter_init n m = Inr f"
  shows "BloomFilter_str repr_float (add_all f ws) =
      literal ''Word Capacity = '' @ py_str repr_float n @ [10]
      @ literal ''Number of bits = '' @ py_str repr_float m @ [10]
      @ literal ''False positive probability = ''
      @ repr_float (exp (- (real_of_int (int_val m) / real_of_int (int_val n)) * (ln 2) ^ 2)) \<and>
    num_hash (add_all f ws) = \<lfloor>(real_of_int (int_val m) / real_of_int (int_val n)) * ln 2\<rfloor>"
proof -
  have f: "f = \<lparr>num_words = n, num_bits = m,
         false_positive_prob =
           exp (- (real_of_int (int_val m) / real_of_int (int_val n)) * (ln 2) ^ 2),
         num_hash = \<lfloor>(real_of_int (int_val m) / real_of_int (int_val n)) * ln 2\<rfloor>,
         bit_array = replicate (nat (int_val m)) False\<rparr>"
    using assms by (simp add: init_cases split: if_splits)
  have "num_words (add_all f ws) = n" "num_bits (add_all f ws) = m"
    "false_positive_prob (add_all f ws) =
      exp (- (real_of_int (int_val m) / real_of_int (int_val n)) * (ln 2) ^ 2)"
    "num_hash (add_all f ws) = \<lfloor>(real_of_int (int_val m) / real_of_int (int_val n)) * ln 2\<rfloor>"
    by (simp_all add: add_all_frame f)
  then show ?thesis
    by (simp add: BloomFilter_str_def)
qed

theorem description_reports_witness:
  "\<forall>repr_float.
     BloomFilter_init (PyInt 100) (PyInt 400) = Inr bloom1 \<and>
     BloomFilter_str repr_float (add_all bloom1 [PyStr (literal ''0'')]) =
       literal ''Word Capacity = '' @ literal ''100'' @ [10]
       @ literal ''Number of bits = '' @ literal ''400'' @ [10]
       @ literal ''False positive probability = '' @ repr_float (exp (- 4 * (ln 2) ^ 2))"
  using init_bloom1 description_reports [OF init_bloom1, of _ "[PyStr (literal ''0'')]"]
  by (simp add: str_100 str_400 del: add_all.simps)


text \<open>
  C9, as stated, fails: \<open>__str__\<close> never reads the hash count.  Two filters that differ
  in nothing but their hash counts have the same description, whatever the printing of
  floats.
\<close>

theorem description_omits_hash_count:
  "num_hash (bloom1\<lparr>num_hash := 3\<rparr>) \<noteq> num_hash bloom1 \<and>
   (\<forall>repr_float. BloomFilter_str repr_float (bloom1\<lparr>num_hash := 3\<rparr>) =
      BloomFilter_str repr_float bloom1)"
  by (simp add: BloomFilter_str_def bloom1_def)

end
